theory Spec2Isabelle
  imports Complex_Main
begin

section \<open>Python string primitives used by the script\<close>

text \<open>
  Strings are modelled as \<^typ>\<open>string\<close> and stand for ASCII text: the character classes
  below are the ASCII ones, and a character outside them is neither a digit, a letter nor
  white space and has no other case.
\<close>

definition ascii_lowercase :: string where
  "ascii_lowercase = ''abcdefghijklmnopqrstuvwxyz''"

definition ascii_uppercase :: string where
  "ascii_uppercase = ''ABCDEFGHIJKLMNOPQRSTUVWXYZ''"

definition digit_chars :: string where
  "digit_chars = ''0123456789''"

definition is_digit :: "char \<Rightarrow> bool" where
  "is_digit c = (c \<in> set digit_chars)"

definition is_alpha :: "char \<Rightarrow> bool" where
  "is_alpha c = (c \<in> set ascii_lowercase \<or> c \<in> set ascii_uppercase)"

text \<open>White space as \<open>str.strip\<close> and \<open>int\<close> see it: tab, line feed, vertical tab, form
  feed, carriage return, the four separators 0x1C..0x1F and the blank.\<close>

definition whitespace_chars :: string where
  "whitespace_chars =
     [CHR 0x09, CHR 0x0A, CHR 0x0B, CHR 0x0C, CHR 0x0D,
      CHR 0x1C, CHR 0x1D, CHR 0x1E, CHR 0x1F, CHR '' '']"

definition is_space :: "char \<Rightarrow> bool" where
  "is_space c = (c \<in> set whitespace_chars)"

definition lower_char :: "char \<Rightarrow> char" where
  "lower_char c =
     (case map_of (zip ascii_uppercase ascii_lowercase) c of Some d \<Rightarrow> d | None \<Rightarrow> c)"

definition upper_char :: "char \<Rightarrow> char" where
  "upper_char c =
     (case map_of (zip ascii_lowercase ascii_uppercase) c of Some d \<Rightarrow> d | None \<Rightarrow> c)"

text \<open>\<open>s.lower()\<close> and \<open>s.upper()\<close>.\<close>

definition lower :: "string \<Rightarrow> string" where
  "lower s = map lower_char s"

definition upper :: "string \<Rightarrow> string" where
  "upper s = map upper_char s"

text \<open>\<open>s.title()\<close>: a letter that follows a letter is lower-cased, any other letter is
  upper-cased; the flag says whether the previous character was a letter.\<close>

fun title_from :: "bool \<Rightarrow> string \<Rightarrow> string" where
  "title_from prev [] = []"
| "title_from prev (c # cs) =
     (if is_alpha c then (if prev then lower_char c else upper_char c) # title_from True cs
      else c # title_from False cs)"

definition title :: "string \<Rightarrow> string" where
  "title s = title_from False s"

text \<open>\<open>s.strip()\<close>.\<close>

definition strip :: "string \<Rightarrow> string" where
  "strip s = rev (dropWhile is_space (rev (dropWhile is_space s)))"

text \<open>\<open>s.startswith(p)\<close> and \<open>p in s\<close> (substring test).\<close>

fun startswith :: "string \<Rightarrow> string \<Rightarrow> bool" where
  "startswith s [] = True"
| "startswith [] (p # ps) = False"
| "startswith (c # cs) (p # ps) = (c = p \<and> startswith cs ps)"

fun contains :: "string \<Rightarrow> string \<Rightarrow> bool" where
  "contains [] sub = (sub = [])"
| "contains (c # cs) sub = (startswith (c # cs) sub \<or> contains cs sub)"

text \<open>\<open>s.replace(old, new)\<close>: every non-overlapping occurrence, from the left. With an
  empty \<open>old\<close> Python puts \<open>new\<close> before every character and at the end.\<close>

function replace :: "string \<Rightarrow> string \<Rightarrow> string \<Rightarrow> string" where
  "replace [] old new = (if old = [] then new else [])"
| "replace (c # cs) old new =
     (if old = [] then new @ c # replace cs old new
      else if startswith (c # cs) old then new @ replace (drop (length old) (c # cs)) old new
      else c # replace cs old new)"
  by pat_completeness auto
termination
  by (relation "measure (\<lambda>(s, old, new). length s)") auto

text \<open>\<open>s.split(sep)\<close> for a one-character separator: \<open>cur\<close> is the part being read.\<close>

fun split_from :: "char \<Rightarrow> string \<Rightarrow> string \<Rightarrow> string list" where
  "split_from sep cur [] = [cur]"
| "split_from sep cur (c # cs) =
     (if c = sep then cur # split_from sep [] cs else split_from sep (cur @ [c]) cs)"

definition split :: "string \<Rightarrow> char \<Rightarrow> string list" where
  "split s sep = split_from sep [] s"

text \<open>\<open>s.rsplit(sep, 1)\<close>: split once, at the last separator if there is one.\<close>

definition rsplit1 :: "string \<Rightarrow> char \<Rightarrow> string list" where
  "rsplit1 s sep =
     (if sep \<in> set s
      then [rev (tl (dropWhile (\<lambda>c. c \<noteq> sep) (rev s))), rev (takeWhile (\<lambda>c. c \<noteq> sep) (rev s))]
      else [s])"

text \<open>\<open>" ".join(filter(None, fragments))\<close>.\<close>

fun join_space :: "string list \<Rightarrow> string" where
  "join_space [] = []"
| "join_space [x] = x"
| "join_space (x # y # ys) = x @ '' '' @ join_space (y # ys)"

definition join_nonempty :: "string list \<Rightarrow> string" where
  "join_nonempty fragments = join_space (filter (\<lambda>f. f \<noteq> []) fragments)"

section \<open>Integers and their decimal text\<close>

text \<open>
  Python's integers are unbounded, so \<open>int(s)\<close> is modelled with \<^typ>\<open>int\<close> and
  \<open>None\<close> stands for the \<open>ValueError\<close> it raises. The interpreter's configurable cap
  on the number of digits of a conversion is not part of the model.
\<close>

definition digit_val :: "char \<Rightarrow> nat" where
  "digit_val c =
     (case map_of (zip digit_chars [0, 1, 2, 3, 4, 5, 6, 7, 8, 9]) c of
        Some n \<Rightarrow> n | None \<Rightarrow> 0)"

definition digit_char :: "nat \<Rightarrow> char" where
  "digit_char n = digit_chars ! (n mod 10)"

text \<open>The digits of a base-10 literal: one underscore is allowed between two digits.
  The flag says whether the previous character was a digit.\<close>

fun scan_digits :: "bool \<Rightarrow> nat \<Rightarrow> string \<Rightarrow> nat option" where
  "scan_digits prev acc [] = (if prev then Some acc else None)"
| "scan_digits prev acc (c # cs) =
     (if is_digit c then scan_digits True (10 * acc + digit_val c) cs
      else if c = CHR ''_'' \<and> prev then scan_digits False acc cs
      else None)"

text \<open>\<open>int(s)\<close>: surrounding white space is dropped, then an optional sign, then digits.\<close>

definition int_of_str :: "string \<Rightarrow> int option" where
  "int_of_str s =
     (case strip s of
        [] \<Rightarrow> None
      | c # cs \<Rightarrow>
          if c = CHR ''-'' then map_option (\<lambda>n. - int n) (scan_digits False 0 cs)
          else if c = CHR ''+'' then map_option int (scan_digits False 0 cs)
          else map_option int (scan_digits False 0 (c # cs)))"

text \<open>\<open>str(n)\<close> for an integer.\<close>

function str_of_nat :: "nat \<Rightarrow> string" where
  "str_of_nat n =
     (if n < 10 then [digit_char n] else str_of_nat (n div 10) @ [digit_char (n mod 10)])"
  by pat_completeness auto
termination
  by (relation "measure (\<lambda>n. n)") auto

declare str_of_nat.simps [simp del]

definition str_of_int :: "int \<Rightarrow> string" where
  "str_of_int i = (if i < 0 then CHR ''-'' # str_of_nat (nat (- i)) else str_of_nat (nat i))"

text \<open>The value of a digit string read from the left, starting from \<open>acc\<close>.\<close>

definition digits_value :: "nat \<Rightarrow> string \<Rightarrow> nat" where
  "digits_value acc s = foldl (\<lambda>a c. 10 * a + digit_val c) acc s"

section \<open>Variant normalisation\<close>

text \<open>
  \<^verbatim>\<open>
  def normalize_variant(raw_variant):
      if not raw_variant:
          return ""
      try:
          return str(int(raw_variant))
      except ValueError:
          return raw_variant.upper()
  \<close>
\<close>

definition normalize_variant :: "string \<Rightarrow> string" where
  "normalize_variant raw_variant =
     (if raw_variant = [] then []
      else case int_of_str raw_variant of
             Some i \<Rightarrow> str_of_int i
           | None \<Rightarrow> upper raw_variant)"


section \<open>Vocabularies\<close>

text \<open>The three module-level tables. A dictionary is kept as an association list in
  insertion order, which is the order \<open>keys()\<close> yields.\<close>

definition COLOR_TOKENS :: "string list" where
  "COLOR_TOKENS =
     [''bronze'', ''silver'', ''yellow'', ''orange'', ''purple'', ''green'', ''black'',
      ''white'', ''brown'', ''grey'', ''gray'', ''blue'', ''red'', ''teal'', ''gold'']"

definition BASE_TYPE_MAP :: "(string \<times> string) list" where
  "BASE_TYPE_MAP =
     [(''beam'', ''beam''),
      (''beamlong'', ''long beam''),
      (''bold'', ''bold glyph''),
      (''bolt'', ''bolt pickup''),
      (''button'', ''ui button''),
      (''cockpit'', ''cockpit module''),
      (''cursor'', ''ui cursor''),
      (''enemy'', ''enemy fighter''),
      (''engine'', ''engine pod''),
      (''fire'', ''thruster flame''),
      (''gun'', ''gun icon''),
      (''laser'', ''laser bolt''),
      (''meteor'', ''meteor''),
      (''numeral'', ''digit''),
      (''pill'', ''pill powerup''),
      (''playerlife'', ''life icon''),
      (''playership'', ''player ship''),
      (''powerup'', ''powerup''),
      (''scratch'', ''hull scratch''),
      (''shield'', ''shield icon''),
      (''speed'', ''speed icon''),
      (''star'', ''star icon''),
      (''things'', ''badge icon''),
      (''turretbase'', ''turret base''),
      (''ufo'', ''ufo saucer''),
      (''wing'', ''wing segment'')]"

definition SIZE_TOKENS :: "(string \<times> string) list" where
  "SIZE_TOKENS =
     [(''big'', ''big''), (''med'', ''med''), (''small'', ''small''), (''tiny'', ''tiny''),
      (''long'', ''long'')]"

section \<open>Sampling the image\<close>

text \<open>
  The image library is not part of the script. An image is modelled by what the script
  observes of it: the pixel sequence \<open>image.crop(box).getdata()\<close> for a box
  \<open>(left, upper, right, lower)\<close>. A pixel is the list of its channel values.
  Channel means and everything computed from them are exact rationals; the rounding of
  the interpreter's floating-point numbers is not modelled.
\<close>

datatype error = ZeroDivisionError | IndexError

type_synonym pixel = "nat list"

type_synonym image = "int \<times> int \<times> int \<times> int \<Rightarrow> pixel list"

type_synonym rgb = "rat \<times> rat \<times> rat"

record frame_rect =
  rect_x :: int
  rect_y :: int
  rect_w :: int
  rect_h :: int

text \<open>The filter of the list comprehension: \<open>len(pixel) == 4 and pixel[3] > 0\<close>.\<close>

definition opaque :: "pixel \<Rightarrow> bool" where
  "opaque pixel = (length pixel = 4 \<and> pixel ! 3 > 0)"

definition channel_mean :: "nat \<Rightarrow> pixel list \<Rightarrow> rat" where
  "channel_mean i pixels =
     of_nat (sum_list (map (\<lambda>pixel. pixel ! i) pixels)) / of_nat (length pixels)"

definition average_color :: "image \<Rightarrow> frame_rect \<Rightarrow> rgb" where
  "average_color img fr =
     (let region = img (rect_x fr, rect_y fr, rect_x fr + rect_w fr, rect_y fr + rect_h fr);
          pixels = filter opaque region
      in if pixels = [] then (0, 0, 0)
         else (channel_mean 0 pixels, channel_mean 1 pixels, channel_mean 2 pixels))"

section \<open>Classifying a colour\<close>

text \<open>\<open>colorsys.rgb_to_hsv\<close> of the standard library. The first division is by
  \<open>maxc\<close>, which is zero when the largest channel is zero and another is negative.\<close>

definition rgb_to_hsv :: "rat \<Rightarrow> rat \<Rightarrow> rat \<Rightarrow> error + rat \<times> rat \<times> rat" where
  "rgb_to_hsv r g b =
     (let maxc = max r (max g b);
          minc = min r (min g b);
          rangec = maxc - minc;
          v = maxc
      in if minc = maxc then Inr (0, 0, v)
         else if maxc = 0 then Inl ZeroDivisionError
         else
           let s = rangec / maxc;
               rc = (maxc - r) / rangec;
               gc = (maxc - g) / rangec;
               bc = (maxc - b) / rangec;
               h = (if r = maxc then bc - gc
                    else if g = maxc then 2 + rc - bc
                    else 4 + gc - rc)
           in Inr (frac (h / 6), s, v))"

definition classify_color :: "rgb \<Rightarrow> error + string" where
  "classify_color c =
     (case c of (r, g, b) \<Rightarrow>
        if r = g \<and> g = b \<and> b = 0 then Inr ''Black''
        else
          case rgb_to_hsv (r / 255) (g / 255) (b / 255) of
            Inl e \<Rightarrow> Inl e
          | Inr (h, s, v) \<Rightarrow>
              if s < 0.22 then
                (if v > 0.85 then Inr ''White''
                 else if v > 0.6 then Inr ''Light Grey''
                 else if v > 0.35 then Inr ''Grey''
                 else Inr ''Dark Grey'')
              else
                let hue = h * 360 in
                if hue < 20 \<or> hue \<ge> 340 then Inr ''Red''
                else if hue < 40 then (if v > 0.45 then Inr ''Orange'' else Inr ''Brown'')
                else if hue < 65 then Inr ''Yellow''
                else if hue < 160 then Inr ''Green''
                else if hue < 210 then Inr ''Cyan''
                else if hue < 255 then Inr ''Blue''
                else if hue < 310 then Inr ''Purple''
                else Inr ''Magenta'')"


section \<open>Parsing a file name\<close>

text \<open>
  Both parsers use the pattern \<open>\d+$\<close>. Without the multi-line flag \<open>$\<close> matches at
  the end of the string and also just before a line feed that ends the string, so the
  digit run that is removed (\<open>re.sub\<close>) or captured (\<open>re.search\<close>) may be followed by
  one final line feed. \<open>dollar_body\<close> splits that line feed off when digits precede it.
\<close>

definition dollar_body :: "string \<Rightarrow> string \<times> string" where
  "dollar_body s =
     (if s \<noteq> [] \<and> last s = CHR 0x0A \<and> butlast s \<noteq> [] \<and> is_digit (last (butlast s))
      then (butlast s, [CHR 0x0A]) else (s, []))"

definition sub_trailing_digits :: "string \<Rightarrow> string" where
  "sub_trailing_digits s =
     (case dollar_body s of (body, nl) \<Rightarrow> rev (dropWhile is_digit (rev body)) @ nl)"

definition search_trailing_digits :: "string \<Rightarrow> string option" where
  "search_trailing_digits s =
     (case dollar_body s of (body, nl) \<Rightarrow>
        let run = rev (takeWhile is_digit (rev body)) in if run = [] then None else Some run)"

text \<open>\<open>sorted(BASE_TYPE_MAP.keys(), key=len, reverse=True)\<close>: a stable sort, longest
  key first, keys of one length in dictionary order.\<close>

definition candidates :: "string list" where
  "candidates = sort_key (\<lambda>k. - int (length k)) (map fst BASE_TYPE_MAP)"

definition extract_base :: "string \<Rightarrow> string \<times> string \<times> string" where
  "extract_base part =
     (let letters = lower (sub_trailing_digits part);
          variant = (case search_trailing_digits part of Some d \<Rightarrow> d | None \<Rightarrow> [])
      in case find (\<lambda>candidate. startswith letters candidate) candidates of
           Some candidate \<Rightarrow> (candidate, drop (length candidate) letters, variant)
         | None \<Rightarrow> (letters, [], variant))"

definition split_token :: "string \<Rightarrow> string \<times> string" where
  "split_token token =
     (lower (sub_trailing_digits token),
      case search_trailing_digits token of Some d \<Rightarrow> d | None \<Rightarrow> [])"

section \<open>Detecting the colour\<close>

text \<open>The second loop of \<open>detect_color\<close>: the first token, in order, whose letters
  contain a colour word, and for it the first such word.\<close>

fun token_color :: "string list \<Rightarrow> string option" where
  "token_color [] = None"
| "token_color (letters # rest) =
     (case find (\<lambda>color_token. contains letters color_token) COLOR_TOKENS of
        Some color_token \<Rightarrow> Some color_token
      | None \<Rightarrow> token_color rest)"

definition detect_color :: "string \<Rightarrow> string list \<Rightarrow> rgb \<Rightarrow> error + string" where
  "detect_color name_lower token_letters c =
     (case find (\<lambda>color_token. contains name_lower color_token) COLOR_TOKENS of
        Some color_token \<Rightarrow> Inr (title (replace color_token ''gray'' ''grey''))
      | None \<Rightarrow>
          (case token_color token_letters of
             Some color_token \<Rightarrow> Inr (title (replace color_token ''gray'' ''grey''))
           | None \<Rightarrow> classify_color c))"

section \<open>Building the description\<close>

text \<open>The nested helper \<open>joined_variant(primary, fallback="")\<close>.\<close>

definition joined_variant :: "string \<Rightarrow> string \<Rightarrow> string" where
  "joined_variant primary fallback = (if primary \<noteq> [] then ''v'' @ primary else fallback)"

text \<open>\<open>next(iterator, default)\<close> on the list of what the generator yields.\<close>

definition next_or :: "'a list \<Rightarrow> 'a \<Rightarrow> 'a" where
  "next_or xs dflt = (case xs of [] \<Rightarrow> dflt | x # _ \<Rightarrow> x)"

definition in_size_tokens :: "string \<Rightarrow> bool" where
  "in_size_tokens letters = (letters \<in> set (map fst SIZE_TOKENS))"

definition size_label :: "string \<Rightarrow> string" where
  "size_label letters = (case map_of SIZE_TOKENS letters of Some l \<Rightarrow> l | None \<Rightarrow> [])"

text \<open>The \<open>if\<close>/\<open>elif\<close> chain of \<open>describe_frame\<close> over the base key, on the values
  the function has computed before it.\<close>

definition description_for ::
  "string \<Rightarrow> string \<Rightarrow> string \<Rightarrow> (string \<times> string) list \<Rightarrow> string \<Rightarrow> string \<Rightarrow> string"
where
  "description_for base_key base_remainder variant_main parsed_tokens color type_label =
     (if base_key = ''beam'' then
        join_nonempty [color, ''beam'', joined_variant variant_main []]
      else if base_key = ''beamlong'' then
        join_nonempty [color, ''long beam'', joined_variant variant_main []]
      else if base_key = ''bold'' then color @ '' bold glyph''
      else if base_key = ''bolt'' then color @ '' bolt pickup''
      else if base_key = ''button'' then color @ '' ui button''
      else if base_key = ''cockpit'' then
        join_nonempty [color, ''cockpit'', joined_variant variant_main []]
      else if base_key = ''cursor'' then color @ '' ui cursor''
      else if base_key = ''enemy'' then
        join_nonempty [color, ''enemy fighter'', joined_variant variant_main []]
      else if base_key = ''engine'' then
        join_nonempty [color, ''engine pod'', joined_variant variant_main []]
      else if base_key = ''fire'' then
        join_nonempty [color, ''thruster flame'', joined_variant variant_main []]
      else if base_key = ''gun'' then
        join_nonempty [color, ''gun icon'', joined_variant variant_main []]
      else if base_key = ''laser'' then
        join_nonempty [color, ''laser bolt'', joined_variant variant_main []]
      else if base_key = ''meteor'' then
        (let size = next_or (map (\<lambda>(letters, _). size_label letters)
                       (filter (\<lambda>(letters, _). in_size_tokens letters) parsed_tokens)) [];
             order = next_or (map (\<lambda>(letters, digits). normalize_variant digits)
                       (filter (\<lambda>(letters, digits). in_size_tokens letters \<and> digits \<noteq> [])
                          parsed_tokens)) variant_main
         in join_nonempty [color, size, ''meteor'', joined_variant order []])
      else if base_key = ''numeral'' then
        (let numeral = (if base_remainder \<noteq> [] then upper base_remainder else variant_main)
         in color @ '' digit '' @ numeral)
      else if base_key = ''pill'' then color @ '' pill powerup''
      else if base_key = ''playerlife'' then
        join_nonempty [color, ''life icon'', joined_variant variant_main []]
      else if base_key = ''playership'' then
        (let damage = next_or (map (\<lambda>(letters, digits). normalize_variant digits)
                        (filter (\<lambda>(letters, digits). letters = ''damage'') parsed_tokens)) [];
             ship_variant = joined_variant variant_main [];
             damage_tag = (if damage \<noteq> [] then ''dmg'' @ damage else [])
         in join_nonempty [color, ''player ship'', ship_variant, damage_tag])
      else if base_key = ''powerup'' then
        (let flavor = next_or (map fst
                        (filter (\<lambda>(letters, _). letters \<noteq> [] \<and> letters \<notin> set COLOR_TOKENS)
                           parsed_tokens)) ''orb''
         in color @ '' '' @ flavor @ '' powerup'')
      else if base_key = ''scratch'' then
        join_nonempty [color, ''hull scratch'', joined_variant variant_main []]
      else if base_key = ''shield'' then
        (let level = normalize_variant variant_main
         in join_nonempty [color, ''shield icon'', joined_variant level []])
      else if base_key = ''speed'' then color @ '' speed icon''
      else if base_key = ''star'' then
        (let star_variant = (if base_remainder \<noteq> [] then upper base_remainder else variant_main)
         in join_nonempty [color, ''star icon'', joined_variant star_variant []])
      else if base_key = ''things'' then
        (let flavor = (if base_remainder \<noteq> [] then base_remainder
                       else next_or (map fst
                              (filter (\<lambda>(letters, _). letters \<notin> set COLOR_TOKENS)
                                 parsed_tokens)) [])
         in join_nonempty [color, if flavor \<noteq> [] then flavor else ''badge'', ''icon''])
      else if base_key = ''turretbase'' then
        (let size = next_or (map (\<lambda>(letters, _). size_label letters)
                       (filter (\<lambda>(letters, _). in_size_tokens letters) parsed_tokens)) []
         in join_nonempty [color, size, ''turret base''])
      else if base_key = ''ufo'' then color @ '' ufo saucer''
      else if base_key = ''wing'' then
        join_nonempty [color, ''wing segment'', joined_variant variant_main []]
      else join_nonempty [color, strip type_label, joined_variant variant_main []])"

text \<open>A frame record of the document: the rectangle, the description (absent before the
  first run) and whatever other fields the record carries.\<close>

record 'a frame_record =
  frame :: frame_rect
  description :: "string option"
  other_fields :: 'a

text \<open>The two abbreviations applied to the colour after detection.\<close>

definition abbreviate :: "string \<Rightarrow> string" where
  "abbreviate color =
     (let color1 = (if startswith color ''Light '' then replace color ''Light '' ''Lt ''
                    else color)
      in if startswith color1 ''Dark '' then replace color1 ''Dark '' ''Dk '' else color1)"

text \<open>\<open>describe_frame(filename, frame, image)\<close>. Indexing the result of a split at 0
  cannot fail, since a split yields at least one part; the \<open>IndexError\<close> branches are
  there because the source indexes.\<close>

definition describe_frame :: "string \<Rightarrow> 'a frame_record \<Rightarrow> image \<Rightarrow> error + string" where
  "describe_frame filename details img =
     (case rsplit1 filename CHR ''.'' of
        [] \<Rightarrow> Inl IndexError
      | frame_name # _ \<Rightarrow>
          let lower_name = lower frame_name in
          case split frame_name CHR ''_'' of
            [] \<Rightarrow> Inl IndexError
          | base_part # more_parts \<Rightarrow>
              case extract_base base_part of
                (base_key, base_remainder, base_variant) \<Rightarrow>
                  let extra_tokens = (if base_remainder \<noteq> [] then [base_remainder] else [])
                                       @ more_parts;
                      parsed_tokens = map split_token (filter (\<lambda>token. token \<noteq> []) extra_tokens);
                      c = average_color img (frame details)
                  in case detect_color lower_name (map fst parsed_tokens) c of
                       Inl e \<Rightarrow> Inl e
                     | Inr detected \<Rightarrow>
                         let variant_main = normalize_variant base_variant;
                             color = abbreviate detected;
                             type_label =
                               (case map_of BASE_TYPE_MAP base_key of
                                  Some l \<Rightarrow> l
                                | None \<Rightarrow> replace base_key ''playership'' ''player ship'')
                         in Inr (strip (description_for base_key base_remainder variant_main
                                          parsed_tokens color type_label)))"

section \<open>The processing loop\<close>

text \<open>
  \<^verbatim>\<open>
  for filename, details in frames.items():
      description = describe_frame(filename, details, image)
      details["description"] = description
  \<close>
  The frames are the items of the dictionary in order. The loop updates the records in
  place; an exception leaves the records already visited updated and ends the loop. The
  result is the frames in memory after the loop and the exception, if any.
\<close>

fun process_frames ::
  "image \<Rightarrow> (string \<times> 'a frame_record) list \<Rightarrow> (string \<times> 'a frame_record) list \<times> error option"
where
  "process_frames img [] = ([], None)"
| "process_frames img ((filename, details) # rest) =
     (case describe_frame filename details img of
        Inl e \<Rightarrow> ((filename, details) # rest, Some e)
      | Inr d \<Rightarrow>
          (case process_frames img rest of
             (rest', err) \<Rightarrow> ((filename, details\<lparr>description := Some d\<rparr>) # rest', err)))"

text \<open>\<open>main\<close> on the loaded document: \<open>data.get("frames", {})\<close> is the empty dictionary
  when the document has no \<open>frames\<close> field, and the file is rewritten only when the loop
  has ended without an exception. The result is the document on disk after the run.\<close>

record ('a, 'b) document =
  frames :: "(string \<times> 'a frame_record) list option"
  other_entries :: 'b

definition main :: "image \<Rightarrow> ('a, 'b) document \<Rightarrow> error + ('a, 'b) document" where
  "main img data =
     (case frames data of
        None \<Rightarrow> Inr data
      | Some fs \<Rightarrow>
          (case process_frames img fs of
             (fs', None) \<Rightarrow> Inr (data\<lparr>frames := Some fs'\<rparr>)
           | (fs', Some e) \<Rightarrow> Inl e))"

text \<open>Two entries of the frames agree on everything but the description: the key, the
  rectangle and the other fields.\<close>

definition same_but_description ::
  "string \<times> 'a frame_record \<Rightarrow> string \<times> 'a frame_record \<Rightarrow> bool" where
  "same_but_description after before =
     (fst after = fst before \<and> frame (snd after) = frame (snd before)
      \<and> other_fields (snd after) = other_fields (snd before))"

section \<open>Sample inputs\<close>

text \<open>A frame record and three images used to instantiate the theorems below: every box
  of \<open>grey_image\<close> crops to two opaque grey pixels of mean 127.5, every box of
  \<open>blue_image\<close> to one opaque pixel of hue 220 degrees, and every box of \<open>clear_image\<close>
  to two fully transparent pixels.\<close>

definition sample_record :: "unit frame_record" where
  "sample_record =
     \<lparr>frame = \<lparr>rect_x = 0, rect_y = 0, rect_w = 2, rect_h = 1\<rparr>,
      description = None, other_fields = ()\<rparr>"

definition grey_image :: image where
  "grey_image box = [[127, 127, 127, 255], [128, 128, 128, 255]]"

definition blue_image :: image where
  "blue_image box = [[0, 85, 255, 255]]"

definition clear_image :: image where
  "clear_image box = [[10, 20, 30, 0], [0, 0, 0, 0]]"

section \<open>Character classes and decimal text\<close>

lemmas chr_defs = is_digit_def digit_chars_def is_space_def whitespace_chars_def
  is_alpha_def ascii_lowercase_def ascii_uppercase_def

lemma digit_not_space: "is_digit c \<Longrightarrow> \<not> is_space c"
  by (auto simp: chr_defs)
lemma digit_not_sign: "is_digit c \<Longrightarrow> c \<noteq> CHR ''-'' \<and> c \<noteq> CHR ''+'' \<and> c \<noteq> CHR ''_''"
  by (auto simp: chr_defs)
lemma small_cases: "(m::nat) < 10 \<Longrightarrow> m \<in> {0, 1, 2, 3, 4, 5, 6, 7, 8, 9}"
  by auto
lemma digit_val_char: "n < 10 \<Longrightarrow> digit_val (digit_char n) = n"
  using small_cases [of n] by (auto simp: digit_val_def digit_char_def chr_defs)
lemma digit_char_digit: "is_digit (digit_char n)"
  using small_cases [of "n mod 10"] unfolding digit_char_def by (auto simp: chr_defs)

lemma scan_digits_all:
  "\<forall>c\<in>set s. is_digit c \<Longrightarrow> s \<noteq> [] \<or> prev \<Longrightarrow> scan_digits prev acc s = Some (digits_value acc s)"
  by (induction s arbitrary: prev acc) (auto simp: digits_value_def)

lemma strip_id: "s = [] \<or> (\<not> is_space (hd s) \<and> \<not> is_space (last s)) \<Longrightarrow> strip s = s"
  by (cases s) (auto simp: strip_def dropWhile_append3 split: if_splits, metis dropWhile.simps(2) hd_rev rev.simps(2) rev_rev_ident list.sel(1) neq_Nil_conv rev_is_Nil_conv)


lemma str_of_nat_small: "d < 10 \<Longrightarrow> str_of_nat d = [digit_char d]"
  by (subst str_of_nat.simps) simp

lemma digits_value_snoc: "digits_value acc (s @ [c]) = 10 * digits_value acc s + digit_val c"
  by (simp add: digits_value_def)



lemma dropWhile_all: "(\<forall>x\<in>set xs. P x) \<Longrightarrow> dropWhile P xs = []"
  by (induction xs) auto


lemma int_of_str_digits:
  assumes "\<forall>c\<in>set s. is_digit c" "s \<noteq> []"
  shows "int_of_str s = Some (int (digits_value 0 s))"
proof -
  obtain c cs where s: "s = c # cs" using assms(2) by (cases s) auto
  have "is_digit (hd s)" "is_digit (last s)" using assms by auto
  then have "strip s = s" by (intro strip_id) (auto dest: digit_not_space)
  moreover have "c \<noteq> CHR ''-''" "c \<noteq> CHR ''+''" using assms(1) s digit_not_sign by auto
  ultimately show ?thesis
    using scan_digits_all [OF assms(1), of False 0] assms(2) s by (simp add: int_of_str_def)
qed



subsection \<open>Printing and reading back\<close>

lemma str_of_nat_props:
  "(\<forall>c\<in>set (str_of_nat n). is_digit c) \<and> str_of_nat n \<noteq> [] \<and> digits_value 0 (str_of_nat n) = n"
proof (induction n rule: str_of_nat.induct)
  case (1 n)
  show ?case
  proof (cases "n < 10")
    case True
    then show ?thesis
      by (simp add: str_of_nat_small digit_char_digit digits_value_def digit_val_char)
  next
    case False
    then have "str_of_nat n = str_of_nat (n div 10) @ [digit_char (n mod 10)]"
      by (subst str_of_nat.simps) simp
    then show ?thesis using 1 False
      by (simp add: digit_char_digit digits_value_snoc digit_val_char)
  qed
qed

lemma hd_str_of_nat: "is_digit (hd (str_of_nat n))" "is_digit (last (str_of_nat n))"
  using str_of_nat_props [of n] by auto

lemma int_of_str_str_of_int: "int_of_str (str_of_int i) = Some i"
proof (cases "i < 0")
  case False
  then show ?thesis
    using int_of_str_digits [of "str_of_nat (nat i)"] str_of_nat_props [of "nat i"]
    by (simp add: str_of_int_def)
next
  case True
  let ?d = "str_of_nat (nat (- i))"
  have p: "\<forall>c\<in>set ?d. is_digit c" "?d \<noteq> []" "digits_value 0 ?d = nat (- i)"
    using str_of_nat_props [of "nat (- i)"] by auto
  have "\<not> is_space (last ?d)" using hd_str_of_nat(2) digit_not_space by blast
  moreover have "\<not> is_space CHR ''-''" by (simp add: chr_defs)
  ultimately have "strip (CHR ''-'' # ?d) = CHR ''-'' # ?d"
    using p(2) by (intro strip_id) simp
  then show ?thesis using True p scan_digits_all [OF p(1), of False 0]
    by (simp add: str_of_int_def int_of_str_def)
qed

lemma str_of_int_nonempty: "str_of_int i \<noteq> []"
  using str_of_nat_props by (simp add: str_of_int_def)



subsection \<open>Upper-casing keeps the character classes\<close>

lemma classes_distinct:
  "distinct (ascii_lowercase @ ascii_uppercase @ digit_chars @ whitespace_chars @ ''-+_'')"
  by (simp add: chr_defs)

lemma upper_char_cases:
  "upper_char c = c \<or> (c \<in> set ascii_lowercase \<and> upper_char c \<in> set ascii_uppercase)"
proof (cases "map_of (zip ascii_lowercase ascii_uppercase) c")
  case None
  then show ?thesis by (simp add: upper_char_def)
next
  case (Some d)
  then have "(c, d) \<in> set (zip ascii_lowercase ascii_uppercase)" by (rule map_of_SomeD)
  then have "c \<in> set ascii_lowercase" "d \<in> set ascii_uppercase"
    by (auto dest: set_zip_leftD set_zip_rightD)
  then show ?thesis using Some by (simp add: upper_char_def)
qed

lemma upper_fixed: "c \<notin> set ascii_lowercase \<Longrightarrow> upper_char c = c"
  using upper_char_cases [of c] by auto

lemma upper_char_idem: "upper_char (upper_char c) = upper_char c"
  using upper_char_cases [of c] upper_fixed [of "upper_char c"] classes_distinct by auto

lemma letters_class:
  "c \<in> set ascii_lowercase \<or> c \<in> set ascii_uppercase \<Longrightarrow>
     \<not> is_space c \<and> \<not> is_digit c \<and> c \<noteq> CHR ''-'' \<and> c \<noteq> CHR ''+'' \<and> c \<noteq> CHR ''_''"
  using classes_distinct by (auto simp: is_space_def is_digit_def)

lemma upper_char_class:
  "is_space (upper_char c) = is_space c"
  "is_digit (upper_char c) = is_digit c"
  "upper_char c = CHR ''-'' \<longleftrightarrow> c = CHR ''-''"
  "upper_char c = CHR ''+'' \<longleftrightarrow> c = CHR ''+''"
  "upper_char c = CHR ''_'' \<longleftrightarrow> c = CHR ''_''"
  using upper_char_cases [of c] letters_class [of c] letters_class [of "upper_char c"] by auto

lemma upper_char_digit: "is_digit c \<Longrightarrow> upper_char c = c"
  using upper_char_cases [of c] letters_class [of c] by auto

lemma dropWhile_space_upper:
  "dropWhile is_space (map upper_char s) = map upper_char (dropWhile is_space s)"
  by (induction s) (auto simp: upper_char_class)

lemma strip_upper: "strip (map upper_char s) = map upper_char (strip s)"
  by (simp add: strip_def dropWhile_space_upper rev_map)

lemma scan_digits_upper: "scan_digits prev acc (map upper_char s) = scan_digits prev acc s"
  by (induction s arbitrary: prev acc) (auto simp: upper_char_class upper_char_digit)

lemma int_of_str_upper: "int_of_str (upper s) = int_of_str s"
proof (cases "strip s")
  case Nil
  then show ?thesis by (simp add: int_of_str_def strip_upper upper_def)
next
  case (Cons c cs)
  then show ?thesis
    using scan_digits_upper [of False 0 cs] scan_digits_upper [of False 0 "c # cs"]
    by (simp add: int_of_str_def strip_upper upper_def upper_char_class del: scan_digits.simps)
qed

lemma upper_idem: "upper (upper s) = upper s"
  by (simp add: upper_def upper_char_idem)

lemma normalize_variant_idem: "normalize_variant (normalize_variant s) = normalize_variant s"
proof (cases "s = []")
  case True
  then show ?thesis by (simp add: normalize_variant_def)
next
  case False
  show ?thesis
  proof (cases "int_of_str s")
    case None
    then have "normalize_variant s = upper s" using False by (simp add: normalize_variant_def)
    moreover have "upper s \<noteq> []" using False by (simp add: upper_def)
    ultimately show ?thesis using None
      by (simp add: normalize_variant_def int_of_str_upper upper_idem)
  next
    case (Some i)
    then have "normalize_variant s = str_of_int i" using False by (simp add: normalize_variant_def)
    then show ?thesis
      by (simp add: normalize_variant_def int_of_str_str_of_int str_of_int_nonempty)
  qed
qed

section \<open>Claims about variant normalisation\<close>



text \<open>
  C10. \<open>normalize_variant\<close> is idempotent, so the shield branch of the description
  chain, which normalises the already normalised base variant once more, yields the
  fragments of the other variant-bearing branches: the colour, the fixed label and the
  \<open>v\<close> fragment of the normalised variant.
\<close>

theorem normalize_variant_idempotent:
  "normalize_variant (normalize_variant s) = normalize_variant s
   \<and> description_for ''shield'' base_remainder (normalize_variant s) parsed_tokens color type_label
       = join_nonempty [color, ''shield icon'', joined_variant (normalize_variant s) []]"
  by (simp add: normalize_variant_idem description_for_def)

section \<open>Claims about the base-key match\<close>

lemma startswith_iff: "startswith s p \<longleftrightarrow> (\<exists>r. s = p @ r)"
  by (induction s p rule: startswith.induct) auto

lemma startswith_drop: "startswith s p \<Longrightarrow> s = p @ drop (length p) s"
  by (auto simp: startswith_iff)

lemma candidates_set: "set candidates = set (map fst BASE_TYPE_MAP)"
  by (simp add: candidates_def)

lemma candidates_sorted: "sorted (map (\<lambda>k. - int (length k)) candidates)"
  unfolding candidates_def by (rule sorted_sort_key)

lemma find_first_longest:
  assumes "sorted (map (\<lambda>k. - int (length k)) ks)" "find P ks = Some key" "k \<in> set ks" "P k"
  shows "length k \<le> length key"
proof -
  obtain i where i: "i < length ks" "key = ks ! i" "\<forall>j<i. \<not> P (ks ! j)"
    using assms(2) by (auto simp: find_Some_iff)
  obtain j where j: "j < length ks" "k = ks ! j"
    using assms(3) by (auto simp: in_set_conv_nth)
  have "i \<le> j" using i(3) j assms(4) by (meson not_less)
  then have "map (\<lambda>k. - int (length k)) ks ! i \<le> map (\<lambda>k. - int (length k)) ks ! j"
    using assms(1) j(1) by (simp add: sorted_iff_nth_mono)
  then show ?thesis using i j \<open>i \<le> j\<close> by simp
qed

text \<open>
  C5. \<open>extract_base\<close> tries the base-type keys longest first. The segment \<open>beamlong2\<close>
  resolves to the key \<open>beamlong\<close> with an empty remainder and the variant \<open>2\<close>. Whenever
  a known key \<open>k\<close> is a prefix of the lower-cased letters of a segment, the key returned
  is a known key, is a prefix of the letters (the remainder is what follows it) and is at
  least as long as \<open>k\<close>. When no known key is a prefix of the letters, the result is the
  letters themselves, an empty remainder and the trailing digits.
\<close>

theorem extract_base_longest_match:
  "extract_base ''beamlong2'' = (''beamlong'', [], ''2'')
   \<and> (k \<in> set (map fst BASE_TYPE_MAP) \<and> startswith (lower (sub_trailing_digits part)) k \<longrightarrow>
        (\<exists>key remainder.
           extract_base part =
             (key, remainder, case search_trailing_digits part of Some d \<Rightarrow> d | None \<Rightarrow> [])
           \<and> key \<in> set (map fst BASE_TYPE_MAP)
           \<and> lower (sub_trailing_digits part) = key @ remainder
           \<and> length k \<le> length key))
   \<and> ((\<forall>k\<in>set (map fst BASE_TYPE_MAP). \<not> startswith (lower (sub_trailing_digits part')) k) \<longrightarrow>
        extract_base part' =
          (lower (sub_trailing_digits part'), [],
           case search_trailing_digits part' of Some d \<Rightarrow> d | None \<Rightarrow> []))"
proof (intro conjI impI)
  show "extract_base ''beamlong2'' = (''beamlong'', [], ''2'')" by code_simp
next
  let ?letters = "lower (sub_trailing_digits part)"
  assume a: "k \<in> set (map fst BASE_TYPE_MAP) \<and> startswith ?letters k"
  then have "k \<in> set candidates" by (simp only: candidates_set)
  then obtain key where key: "find (\<lambda>c. startswith ?letters c) candidates = Some key"
    using a by (cases "find (\<lambda>c. startswith ?letters c) candidates") (auto simp: find_None_iff)
  then have m: "key \<in> set candidates" "startswith ?letters key"
    by (auto simp: find_Some_iff)
  have "length k \<le> length key"
    using find_first_longest [OF candidates_sorted key \<open>k \<in> set candidates\<close>] a by simp
  moreover have "?letters = key @ drop (length key) ?letters"
    using m(2) by (rule startswith_drop)
  moreover have "key \<in> set (map fst BASE_TYPE_MAP)" using m(1) by (simp only: candidates_set)
  ultimately show "\<exists>key remainder.
           extract_base part =
             (key, remainder, case search_trailing_digits part of Some d \<Rightarrow> d | None \<Rightarrow> [])
           \<and> key \<in> set (map fst BASE_TYPE_MAP)
           \<and> lower (sub_trailing_digits part) = key @ remainder
           \<and> length k \<le> length key"
    using key by (simp add: extract_base_def Let_def)
next
  let ?letters = "lower (sub_trailing_digits part')"
  assume "\<forall>k\<in>set (map fst BASE_TYPE_MAP). \<not> startswith ?letters k"
  then have "find (\<lambda>c. startswith ?letters c) candidates = None"
    by (simp only: find_None_iff candidates_set) blast
  then show "extract_base part' =
          (?letters, [], case search_trailing_digits part' of Some d \<Rightarrow> d | None \<Rightarrow> [])"
    by (simp add: extract_base_def Let_def)
qed

text \<open>The theorem at \<open>beamlong2\<close>, where both \<open>beam\<close> and \<open>beamlong\<close> are prefixes, and at
  \<open>RedLaser\<close>, where no key is.\<close>

theorem extract_base_longest_match_witness:
  "''beam'' \<in> set (map fst BASE_TYPE_MAP)
   \<and> startswith (lower (sub_trailing_digits ''beamlong2'')) ''beam''
   \<and> length ''beam'' \<le> length (fst (extract_base ''beamlong2''))
   \<and> list_all (\<lambda>k. \<not> startswith (lower (sub_trailing_digits ''RedLaser'')) k)
         (map fst BASE_TYPE_MAP)
   \<and> extract_base ''RedLaser'' = (''redlaser'', [], [])"
proof -
  note inst = extract_base_longest_match
    [where k = "''beam''" and part = "''beamlong2''" and part' = "''RedLaser''"]
  have l1: "lower (sub_trailing_digits ''beamlong2'') = ''beamlong''" by code_simp
  have l2: "lower (sub_trailing_digits ''RedLaser'') = ''redlaser''" by code_simp
  have d2: "search_trailing_digits ''RedLaser'' = None" by code_simp
  have h1: "''beam'' \<in> set (map fst BASE_TYPE_MAP)
            \<and> startswith (lower (sub_trailing_digits ''beamlong2'')) ''beam''"
    unfolding l1 by (simp add: BASE_TYPE_MAP_def)
  have h2: "\<forall>k\<in>set (map fst BASE_TYPE_MAP). \<not> startswith (lower (sub_trailing_digits ''RedLaser'')) k"
    unfolding l2 by (simp add: BASE_TYPE_MAP_def)
  have c1: "length ''beam'' \<le> length (fst (extract_base ''beamlong2''))"
    using inst h1 by fastforce
  have c2: "extract_base ''RedLaser'' =
          (lower (sub_trailing_digits ''RedLaser''), [],
           case search_trailing_digits ''RedLaser'' of Some d \<Rightarrow> d | None \<Rightarrow> [])"
    using inst h2 by blast
  show ?thesis using h1 h2 c1 c2 unfolding l2 d2 by (simp add: list_all_iff)
qed

section \<open>Claims about the colour\<close>

lemmas case_defs = is_alpha_def ascii_lowercase_def ascii_uppercase_def upper_char_def lower_char_def

lemma color_names:
  "\<forall>t\<in>set COLOR_TOKENS.
     title (replace t ''gray'' ''grey'') = title (if t = ''gray'' then ''grey'' else t)
     \<and> title (replace t ''gray'' ''grey'') \<noteq> ''Gray''
     \<and> title (replace t ''gray'' ''grey'') \<in> set [''Bronze'', ''Silver'', ''Yellow'', ''Orange'', ''Purple'', ''Green'', ''Black'',
      ''White'', ''Brown'', ''Grey'', ''Blue'', ''Red'', ''Teal'', ''Gold'']"
  by code_simp

text \<open>
  C3. When the lower-cased name contains one of the colour words, \<open>detect_color\<close>
  returns the first word of the list that the name contains, title-cased and with
  \<open>gray\<close> rewritten to \<open>grey\<close>; the result is never \<open>Gray\<close>, and it is the same for
  any two sampled colours and any two token lists: the classifier of the sampled colour
  plays no part.
\<close>

theorem detect_color_lexical:
  "t \<in> set COLOR_TOKENS \<and> contains name_lower t \<longrightarrow>
     (\<exists>first. find (\<lambda>color_token. contains name_lower color_token) COLOR_TOKENS = Some first
        \<and> detect_color name_lower token_letters c
            = Inr (title (if first = ''gray'' then ''grey'' else first)))
     \<and> detect_color name_lower token_letters c \<noteq> Inr ''Gray''
     \<and> detect_color name_lower token_letters' c' = detect_color name_lower token_letters c"
proof
  assume a: "t \<in> set COLOR_TOKENS \<and> contains name_lower t"
  then obtain first where f: "find (\<lambda>color_token. contains name_lower color_token) COLOR_TOKENS = Some first"
    by (cases "find (\<lambda>color_token. contains name_lower color_token) COLOR_TOKENS")
       (auto simp: find_None_iff)
  then have "first \<in> set COLOR_TOKENS" by (auto simp: find_Some_iff)
  then have n: "title (replace first ''gray'' ''grey'') = title (if first = ''gray'' then ''grey'' else first)"
    "title (replace first ''gray'' ''grey'') \<noteq> ''Gray''"
    using color_names by blast+
  have d: "\<And>ls rgb. detect_color name_lower ls rgb = Inr (title (replace first ''gray'' ''grey''))"
    using f by (simp add: detect_color_def)
  show "(\<exists>first. find (\<lambda>color_token. contains name_lower color_token) COLOR_TOKENS = Some first
        \<and> detect_color name_lower token_letters c
            = Inr (title (if first = ''gray'' then ''grey'' else first)))
     \<and> detect_color name_lower token_letters c \<noteq> Inr ''Gray''
     \<and> detect_color name_lower token_letters' c' = detect_color name_lower token_letters c"
    using f n d by auto
qed

text \<open>The theorem at a name that contains two colour words: the one earlier in the list
  is returned, whatever the sample.\<close>

theorem detect_color_lexical_witness:
  "''red'' \<in> set COLOR_TOKENS \<and> contains ''bluered_01'' ''red''
   \<and> find (\<lambda>color_token. contains ''bluered_01'' color_token) COLOR_TOKENS = Some ''blue''
   \<and> detect_color ''bluered_01'' [''x''] (255, 0, 0) = Inr ''Blue''
   \<and> detect_color ''bluered_01'' [] (0, 255, 0) = Inr ''Blue''"
proof -
  note inst = detect_color_lexical [where t = "''red''" and name_lower = "''bluered_01''"
      and token_letters = "[''x'']" and c = "(255, 0, 0)" and token_letters' = "[]"
      and c' = "(0, 255, 0)"]
  have h: "''red'' \<in> set COLOR_TOKENS \<and> contains ''bluered_01'' ''red''"
    by (simp add: COLOR_TOKENS_def)
  have f: "find (\<lambda>color_token. contains ''bluered_01'' color_token) COLOR_TOKENS = Some ''blue''"
    by (simp add: COLOR_TOKENS_def)
  have t: "title ''blue'' = ''Blue''" by (simp add: title_def case_defs)
  have "detect_color ''bluered_01'' [''x''] (255, 0, 0) = Inr ''Blue''
        \<and> detect_color ''bluered_01'' [] (0, 255, 0) = detect_color ''bluered_01'' [''x''] (255, 0, 0)"
    using inst h f t by auto
  then show ?thesis using h f by simp
qed





section \<open>Evaluating \<open>describe_frame\<close> on a file name\<close>

text \<open>The function is evaluated in the steps of its body: the name without its
  extension, its parts, the base key, the parsed tokens, the colour, and the branch of
  the chain.\<close>

lemma describe_frame_steps:
  assumes "rsplit1 filename CHR ''.'' = frame_name # rest0"
    and "split frame_name CHR ''_'' = base_part # more_parts"
    and "extract_base base_part = (base_key, base_remainder, base_variant)"
    and "map split_token (filter (\<lambda>token. token \<noteq> [])
           ((if base_remainder \<noteq> [] then [base_remainder] else []) @ more_parts)) = parsed_tokens"
    and "detect_color (lower frame_name) (map fst parsed_tokens)
           (average_color img (frame details)) = Inr detected"
    and "strip (description_for base_key base_remainder (normalize_variant base_variant)
           parsed_tokens (abbreviate detected)
           (case map_of BASE_TYPE_MAP base_key of
              Some l \<Rightarrow> l
            | None \<Rightarrow> replace base_key ''playership'' ''player ship'')) = result"
  shows "describe_frame filename details img = Inr result"
  by (simp only: describe_frame_def Let_def assms list.case prod.case sum.case)

lemma detect_color_found:
  "find (\<lambda>color_token. contains name_lower color_token) COLOR_TOKENS = Some t \<Longrightarrow>
   detect_color name_lower token_letters c = Inr (title (replace t ''gray'' ''grey''))"
  by (simp add: detect_color_def)

lemma detect_color_sampled:
  "find (\<lambda>color_token. contains name_lower color_token) COLOR_TOKENS = None \<Longrightarrow>
   token_color token_letters = None \<Longrightarrow>
   detect_color name_lower token_letters c = classify_color c"
  by (simp add: detect_color_def)

lemma rgb_to_hsv_zero: "rgb_to_hsv (0 / 255) (0 / 255) (0 / 255) = Inr (0, 0, 0)"
  by (simp add: rgb_to_hsv_def)

lemma classify_grey:
  assumes "rgb_to_hsv (r / 255) (g / 255) (b / 255) = Inr (h, s, v)" "s < 0.22" "v = 0.5"
  shows "classify_color (r, g, b) = Inr ''Grey''"
proof -
  have "\<not> (r = g \<and> g = b \<and> b = 0)" using assms(1,3) rgb_to_hsv_zero by auto
  then show ?thesis using assms by (simp add: classify_color_def)
qed

lemma classify_blue:
  assumes "rgb_to_hsv (r / 255) (g / 255) (b / 255) = Inr (h, s, v)" "0.22 \<le> s"
    "210 \<le> h * 360" "h * 360 < 255"
  shows "classify_color (r, g, b) = Inr ''Blue''"
proof -
  have "\<not> (r = g \<and> g = b \<and> b = 0)" using assms(1,2) rgb_to_hsv_zero by auto
  then show ?thesis using assms by (simp add: classify_color_def Let_def)
qed

lemma grey_sample:
  "average_color grey_image (frame sample_record) = (255 / 2, 255 / 2, 255 / 2)"
  by (simp add: average_color_def grey_image_def opaque_def channel_mean_def)

lemma grey_sample_hsv:
  "rgb_to_hsv (255 / 2 / 255) (255 / 2 / 255) (255 / 2 / 255) = Inr (0, 0, 1 / 2)"
  by (simp add: rgb_to_hsv_def)

lemma blue_sample:
  "average_color blue_image (frame sample_record) = (0, 85, 255)"
  by (simp add: average_color_def blue_image_def opaque_def channel_mean_def)

lemma blue_sample_hsv:
  "rgb_to_hsv (0 / 255) (85 / 255) (255 / 255) = Inr (11 / 18, 1, 1)"
  by (simp add: rgb_to_hsv_def Let_def frac_eq)

section \<open>Claims about the end-to-end examples\<close>

lemma describe_RedLaser_03: "describe_frame ''RedLaser_03'' details img = Inr ''Red redlaser''"
proof (rule describe_frame_steps)
  show "rsplit1 ''RedLaser_03'' CHR ''.'' = ''RedLaser_03'' # []" by code_simp
  show "split ''RedLaser_03'' CHR ''_'' = ''RedLaser'' # [''03'']" by code_simp
  show "extract_base ''RedLaser'' = (''redlaser'', [], [])" by code_simp
  show "map split_token (filter (\<lambda>token. token \<noteq> [])
           ((if ([]::string) \<noteq> [] then [[]] else []) @ [''03''])) = [([], ''03'')]" by code_simp
  have "find (\<lambda>color_token. contains (lower ''RedLaser_03'') color_token) COLOR_TOKENS = Some ''red''"
    by code_simp
  moreover have "title (replace ''red'' ''gray'' ''grey'') = ''Red''" by code_simp
  ultimately show "detect_color (lower ''RedLaser_03'') (map fst [([], ''03'')])
           (average_color img (frame details)) = Inr ''Red''"
    using detect_color_found by metis
  show "strip (description_for ''redlaser'' [] (normalize_variant []) [([], ''03'')]
           (abbreviate ''Red'')
           (case map_of BASE_TYPE_MAP ''redlaser'' of
              Some l \<Rightarrow> l
            | None \<Rightarrow> replace ''redlaser'' ''playership'' ''player ship'')) = ''Red redlaser''"
    by code_simp
qed

lemma describe_laserRed03: "describe_frame ''laserRed03'' details img = Inr ''Red laser bolt v3''"
proof (rule describe_frame_steps)
  show "rsplit1 ''laserRed03'' CHR ''.'' = ''laserRed03'' # []" by code_simp
  show "split ''laserRed03'' CHR ''_'' = ''laserRed03'' # []" by code_simp
  show "extract_base ''laserRed03'' = (''laser'', ''red'', ''03'')" by code_simp
  show "map split_token (filter (\<lambda>token. token \<noteq> [])
           ((if ''red'' \<noteq> [] then [''red''] else []) @ [])) = [(''red'', [])]" by code_simp
  have "find (\<lambda>color_token. contains (lower ''laserRed03'') color_token) COLOR_TOKENS = Some ''red''"
    by code_simp
  moreover have "title (replace ''red'' ''gray'' ''grey'') = ''Red''" by code_simp
  ultimately show "detect_color (lower ''laserRed03'') (map fst [(''red'', [])])
           (average_color img (frame details)) = Inr ''Red''"
    using detect_color_found by metis
  show "strip (description_for ''laser'' ''red'' (normalize_variant ''03'') [(''red'', [])]
           (abbreviate ''Red'')
           (case map_of BASE_TYPE_MAP ''laser'' of
              Some l \<Rightarrow> l
            | None \<Rightarrow> replace ''laser'' ''playership'' ''player ship'')) = ''Red laser bolt v3''"
    by code_simp
qed

text \<open>
  C1, as the code has it. For the file name \<open>RedLaser_03\<close>, whatever the frame rectangle
  and the image, \<open>describe_frame\<close> returns \<open>Red redlaser\<close>: the colour word in the name
  gives \<open>Red\<close> without regard to the sampled colour, but no base-type key is a prefix of
  \<open>redlaser\<close>, so the label is the letters of the base segment, and that segment ends in
  no digits, so there is no variant fragment. The name \<open>laserRed03\<close>, which starts with
  the key, is described as \<open>Red laser bolt v3\<close>, again whatever the sample.
\<close>

theorem redlaser_description:
  "describe_frame ''RedLaser_03'' details img = Inr ''Red redlaser''
   \<and> describe_frame ''laserRed03'' details img = Inr ''Red laser bolt v3''"
  using describe_RedLaser_03 describe_laserRed03 by blast

text \<open>The theorem at two images of different colours.\<close>

theorem redlaser_description_witness:
  "describe_frame ''RedLaser_03'' sample_record grey_image = Inr ''Red redlaser''
   \<and> describe_frame ''RedLaser_03'' sample_record blue_image = Inr ''Red redlaser''
   \<and> describe_frame ''laserRed03'' sample_record blue_image = Inr ''Red laser bolt v3''"
  using redlaser_description [of sample_record grey_image]
    redlaser_description [of sample_record blue_image] by blast

text \<open>The description claimed for \<open>RedLaser_03\<close> is not the one returned.\<close>

theorem redlaser_counterexample:
  "describe_frame ''RedLaser_03'' sample_record grey_image \<noteq> Inr ''Red laser bolt v3''"
  by (simp add: describe_RedLaser_03)

lemma describe_meteorBig_07:
  assumes "classify_color (average_color img (frame details)) = Inr ''Grey''"
  shows "describe_frame ''meteorBig_07'' details img = Inr ''Grey big meteor''"
proof (rule describe_frame_steps)
  show "rsplit1 ''meteorBig_07'' CHR ''.'' = ''meteorBig_07'' # []" by code_simp
  show "split ''meteorBig_07'' CHR ''_'' = ''meteorBig'' # [''07'']" by code_simp
  show "extract_base ''meteorBig'' = (''meteor'', ''big'', [])" by code_simp
  show "map split_token (filter (\<lambda>token. token \<noteq> [])
           ((if ''big'' \<noteq> [] then [''big''] else []) @ [''07''])) = [(''big'', []), ([], ''07'')]"
    by code_simp
  have "find (\<lambda>color_token. contains (lower ''meteorBig_07'') color_token) COLOR_TOKENS = None"
    by code_simp
  moreover have "token_color (map fst [(''big'', []), ([], ''07'')]) = None" by code_simp
  ultimately show "detect_color (lower ''meteorBig_07'') (map fst [(''big'', []), ([], ''07'')])
           (average_color img (frame details)) = Inr ''Grey''"
    using assms by (simp only: detect_color_sampled)
  show "strip (description_for ''meteor'' ''big'' (normalize_variant [])
           [(''big'', []), ([], ''07'')] (abbreviate ''Grey'')
           (case map_of BASE_TYPE_MAP ''meteor'' of
              Some l \<Rightarrow> l
            | None \<Rightarrow> replace ''meteor'' ''playership'' ''player ship'')) = ''Grey big meteor''"
    by code_simp
qed

lemma describe_meteor_big07:
  assumes "classify_color (average_color img (frame details)) = Inr ''Grey''"
  shows "describe_frame ''meteor_big07'' details img = Inr ''Grey big meteor v7''"
proof (rule describe_frame_steps)
  show "rsplit1 ''meteor_big07'' CHR ''.'' = ''meteor_big07'' # []" by code_simp
  show "split ''meteor_big07'' CHR ''_'' = ''meteor'' # [''big07'']" by code_simp
  show "extract_base ''meteor'' = (''meteor'', [], [])" by code_simp
  show "map split_token (filter (\<lambda>token. token \<noteq> [])
           ((if ([]::string) \<noteq> [] then [[]] else []) @ [''big07''])) = [(''big'', ''07'')]"
    by code_simp
  have "find (\<lambda>color_token. contains (lower ''meteor_big07'') color_token) COLOR_TOKENS = None"
    by code_simp
  moreover have "token_color (map fst [(''big'', ''07'')]) = None" by code_simp
  ultimately show "detect_color (lower ''meteor_big07'') (map fst [(''big'', ''07'')])
           (average_color img (frame details)) = Inr ''Grey''"
    using assms by (simp only: detect_color_sampled)
  show "strip (description_for ''meteor'' [] (normalize_variant [])
           [(''big'', ''07'')] (abbreviate ''Grey'')
           (case map_of BASE_TYPE_MAP ''meteor'' of
              Some l \<Rightarrow> l
            | None \<Rightarrow> replace ''meteor'' ''playership'' ''player ship'')) = ''Grey big meteor v7''"
    by code_simp
qed


text \<open>
  C2, as the code has it. For the file name \<open>meteorBig_07\<close>, when the sampled colour is
  near-greyscale (saturation below 0.22) with value 0.5, \<open>describe_frame\<close> returns
  \<open>Grey big meteor\<close>: \<open>big\<close> is the size, but the order number is read only from digits
  attached to the size token, and \<open>07\<close> is a token of its own, so there is no \<open>v\<close>
  fragment. The name \<open>meteor_big07\<close>, where the digits follow the size word, is described
  as \<open>Grey big meteor v7\<close>.
\<close>

theorem meteor_description:
  "average_color img (frame details) = (r, g, b)
   \<and> rgb_to_hsv (r / 255) (g / 255) (b / 255) = Inr (h, s, v) \<and> s < 0.22 \<and> v = 0.5 \<longrightarrow>
     describe_frame ''meteorBig_07'' details img = Inr ''Grey big meteor''
     \<and> describe_frame ''meteor_big07'' details img = Inr ''Grey big meteor v7''"
proof
  assume a: "average_color img (frame details) = (r, g, b)
   \<and> rgb_to_hsv (r / 255) (g / 255) (b / 255) = Inr (h, s, v) \<and> s < 0.22 \<and> v = 0.5"
  then have "classify_color (average_color img (frame details)) = Inr ''Grey''"
    using classify_grey [of r g b h s v] by simp
  then show "describe_frame ''meteorBig_07'' details img = Inr ''Grey big meteor''
     \<and> describe_frame ''meteor_big07'' details img = Inr ''Grey big meteor v7''"
    by (simp only: describe_meteorBig_07 describe_meteor_big07)
qed

text \<open>The theorem at an image of two grey pixels of mean 127.5.\<close>

theorem meteor_description_witness:
  "average_color grey_image (frame sample_record) = (255 / 2, 255 / 2, 255 / 2)
   \<and> rgb_to_hsv (255 / 2 / 255) (255 / 2 / 255) (255 / 2 / 255) = Inr (0, 0, 1 / 2)
   \<and> (0::rat) < 0.22
   \<and> describe_frame ''meteorBig_07'' sample_record grey_image = Inr ''Grey big meteor''
   \<and> describe_frame ''meteor_big07'' sample_record grey_image = Inr ''Grey big meteor v7''"
proof -
  have h: "average_color grey_image (frame sample_record) = (255 / 2, 255 / 2, 255 / 2)
   \<and> rgb_to_hsv (255 / 2 / 255) (255 / 2 / 255) (255 / 2 / 255) = Inr (0, 0, 1 / 2)
   \<and> (0::rat) < 0.22 \<and> (1 / 2 :: rat) = 0.5"
    using grey_sample grey_sample_hsv by simp
  have "describe_frame ''meteorBig_07'' sample_record grey_image = Inr ''Grey big meteor''
     \<and> describe_frame ''meteor_big07'' sample_record grey_image = Inr ''Grey big meteor v7''"
    using meteor_description [of grey_image sample_record "255 / 2" "255 / 2" "255 / 2" 0 0 "1 / 2"] h
    by blast
  then show ?thesis using h by blast
qed

text \<open>On that image the hypotheses of the claim hold and the description claimed for
  \<open>meteorBig_07\<close> is not the one returned.\<close>

theorem meteor_counterexample:
  "average_color grey_image (frame sample_record) = (255 / 2, 255 / 2, 255 / 2)
   \<and> rgb_to_hsv (255 / 2 / 255) (255 / 2 / 255) (255 / 2 / 255) = Inr (0, 0, 1 / 2)
   \<and> (0::rat) < 0.22
   \<and> describe_frame ''meteorBig_07'' sample_record grey_image \<noteq> Inr ''Grey big meteor v7''"
proof -
  have "classify_color (average_color grey_image (frame sample_record)) = Inr ''Grey''"
    using classify_grey [OF grey_sample_hsv] by (simp add: grey_sample)
  then have "describe_frame ''meteorBig_07'' sample_record grey_image = Inr ''Grey big meteor''"
    by (rule describe_meteorBig_07)
  then show ?thesis using grey_sample grey_sample_hsv by simp
qed



section \<open>Claims about the processing loop\<close>

lemma describe_ufo_png:
  assumes "classify_color (average_color img (frame details)) = Inr ''Blue''"
  shows "describe_frame ''ufo.png'' details img = Inr ''Blue ufo saucer''"
proof (rule describe_frame_steps)
  show "rsplit1 ''ufo.png'' CHR ''.'' = ''ufo'' # [''png'']" by code_simp
  show "split ''ufo'' CHR ''_'' = ''ufo'' # []" by code_simp
  show "extract_base ''ufo'' = (''ufo'', [], [])" by code_simp
  show "map split_token (filter (\<lambda>token. token \<noteq> [])
           ((if ([]::string) \<noteq> [] then [[]] else []) @ [])) = []"
    by code_simp
  have "find (\<lambda>color_token. contains (lower ''ufo'') color_token) COLOR_TOKENS = None"
    by code_simp
  moreover have "token_color (map fst ([]::(string \<times> string) list)) = None" by simp
  ultimately show "detect_color (lower ''ufo'') (map fst ([]::(string \<times> string) list))
           (average_color img (frame details)) = Inr ''Blue''"
    using assms by (simp only: detect_color_sampled)
  show "strip (description_for ''ufo'' [] (normalize_variant [])
           [] (abbreviate ''Blue'')
           (case map_of BASE_TYPE_MAP ''ufo'' of
              Some l \<Rightarrow> l
            | None \<Rightarrow> replace ''ufo'' ''playership'' ''player ship'')) = ''Blue ufo saucer''"
    by code_simp
qed

lemma blue_sample_class:
  "classify_color (average_color blue_image (frame sample_record)) = Inr ''Blue''"
  using classify_blue [OF blue_sample_hsv] by (simp add: blue_sample)

lemma process_frames_shape:
  "list_all2 same_but_description (fst (process_frames img fs)) fs"
proof (induction fs)
  case Nil
  show ?case by simp
next
  case (Cons entry fs)
  obtain filename details where e: "entry = (filename, details)" by (cases entry)
  show ?case
  proof (cases "describe_frame filename details img")
    case (Inl err)
    have "same_but_description x x" for x :: "string \<times> 'a frame_record"
      by (simp add: same_but_description_def)
    then have "list_all2 same_but_description (entry # fs) (entry # fs)"
      by (simp add: list_all2_same)
    then show ?thesis using Inl e by simp
  next
    case (Inr d)
    obtain rest' err where p: "process_frames img fs = (rest', err)"
      by (cases "process_frames img fs")
    then have "list_all2 same_but_description rest' fs" using Cons.IH by simp
    moreover have "same_but_description (filename, details\<lparr>description := Some d\<rparr>) (filename, details)"
      by (simp add: same_but_description_def)
    ultimately show ?thesis using Inr e p by simp
  qed
qed

text \<open>
  C9. The frames in memory after the loop, whether it ended normally or by an exception,
  have the keys of the frames before it, in the same order, and every record has the
  rectangle and the other fields it had: only descriptions differ. When \<open>main\<close> rewrites
  the document, the entries other than \<open>frames\<close> are unchanged as well.
\<close>

theorem process_frames_only_description:
  "list_all2 same_but_description (fst (process_frames img fs)) fs
   \<and> map fst (fst (process_frames img fs)) = map fst fs
   \<and> map (frame \<circ> snd) (fst (process_frames img fs)) = map (frame \<circ> snd) fs
   \<and> map (other_fields \<circ> snd) (fst (process_frames img fs)) = map (other_fields \<circ> snd) fs
   \<and> (main img data = Inr data' \<longrightarrow>
         other_entries data' = other_entries data
         \<and> rel_option (list_all2 same_but_description) (frames data') (frames data))"
proof -
  have r: "list_all2 same_but_description fs' fs \<Longrightarrow>
           map fst fs' = map fst fs \<and> map (frame \<circ> snd) fs' = map (frame \<circ> snd) fs
           \<and> map (other_fields \<circ> snd) fs' = map (other_fields \<circ> snd) fs"
    for fs' fs :: "(string \<times> 'a frame_record) list"
    by (induction fs' fs rule: list_all2_induct) (auto simp: same_but_description_def)
  have m: "main img data = Inr data' \<longrightarrow>
         other_entries data' = other_entries data
         \<and> rel_option (list_all2 same_but_description) (frames data') (frames data)"
  proof (cases "frames data")
    case None
    then show ?thesis by (auto simp: main_def)
  next
    case (Some fs0)
    obtain fs1 err where p: "process_frames img fs0 = (fs1, err)" by (cases "process_frames img fs0")
    then have "list_all2 same_but_description fs1 fs0"
      using process_frames_shape [of img fs0] by simp
    then show ?thesis using Some p by (cases err) (auto simp: main_def)
  qed
  show ?thesis using process_frames_shape [of img fs] r m by blast
qed

text \<open>The theorem at a document of one frame.\<close>

theorem process_frames_only_description_witness:
  "main blue_image \<lparr>frames = Some [(''ufo.png'', sample_record)], other_entries = ''meta''\<rparr>
     = Inr \<lparr>frames = Some [(''ufo.png'', sample_record\<lparr>description := Some ''Blue ufo saucer''\<rparr>)],
            other_entries = ''meta''\<rparr>
   \<and> other_entries \<lparr>frames = Some [(''ufo.png'', sample_record\<lparr>description := Some ''Blue ufo saucer''\<rparr>)],
            other_entries = ''meta''\<rparr> = ''meta''
   \<and> list_all2 same_but_description
        [(''ufo.png'', sample_record\<lparr>description := Some ''Blue ufo saucer''\<rparr>)]
        [(''ufo.png'', sample_record)]"
proof -
  let ?d = "\<lparr>frames = Some [(''ufo.png'', sample_record)], other_entries = ''meta''\<rparr>"
  let ?d' = "\<lparr>frames = Some [(''ufo.png'', sample_record\<lparr>description := Some ''Blue ufo saucer''\<rparr>)],
            other_entries = ''meta''\<rparr>"
  have df: "describe_frame ''ufo.png'' sample_record blue_image = Inr ''Blue ufo saucer''"
    using blue_sample_class by (rule describe_ufo_png)
  have h: "main blue_image ?d = Inr ?d'"
    by (simp add: main_def df)
  have "other_entries ?d' = other_entries ?d
         \<and> rel_option (list_all2 same_but_description) (frames ?d') (frames ?d)"
    using process_frames_only_description [of blue_image "[]" ?d ?d'] h by blast
  then show ?thesis using h by simp
qed

section \<open>Claims about a fully transparent frame\<close>

subsection \<open>Substrings\<close>

lemma contains_iff: "contains s t \<longleftrightarrow> (\<exists>ps ss. s = ps @ t @ ss)"
proof (induction s)
  case Nil
  show ?case by auto
next
  case (Cons c cs)
  show ?case
  proof
    assume "contains (c # cs) t"
    then consider "startswith (c # cs) t" | "contains cs t" by auto
    then show "\<exists>ps ss. c # cs = ps @ t @ ss"
    proof cases
      case 1
      then obtain r where "c # cs = t @ r" by (auto simp: startswith_iff)
      then have "c # cs = [] @ t @ r" by simp
      then show ?thesis by blast
    next
      case 2
      then obtain ps ss where "cs = ps @ t @ ss" using Cons.IH by auto
      then have "c # cs = (c # ps) @ t @ ss" by simp
      then show ?thesis by blast
    qed
  next
    assume "\<exists>ps ss. c # cs = ps @ t @ ss"
    then obtain ps ss where e: "c # cs = ps @ t @ ss" by auto
    show "contains (c # cs) t"
    proof (cases ps)
      case Nil
      then have "startswith (c # cs) t" using e by (simp add: startswith_iff)
      then show ?thesis by simp
    next
      case (Cons p ps')
      then have "cs = ps' @ t @ ss" using e by simp
      then show ?thesis using Cons.IH by auto
    qed
  qed
qed

lemma contains_within: "contains x t \<Longrightarrow> contains (a @ x @ b) t"
proof -
  assume "contains x t"
  then obtain ps ss where "x = ps @ t @ ss" by (auto simp: contains_iff)
  then have "a @ x @ b = (a @ ps) @ t @ (ss @ b)" by simp
  then show ?thesis unfolding contains_iff by blast
qed

lemma contains_drop: "contains (drop n x) t \<Longrightarrow> contains x t"
  using contains_within [of "drop n x" t "take n x" "[]"] by simp

lemma contains_take: "contains (take n x) t \<Longrightarrow> contains x t"
  using contains_within [of "take n x" t "[]" "drop n x"] by simp

lemma contains_snoc:
  assumes "contains (x @ [c]) t" "c \<notin> set t" "t \<noteq> []"
  shows "contains x t"
proof -
  obtain ps ss where e: "x @ [c] = ps @ t @ ss" using assms(1) by (auto simp: contains_iff)
  show ?thesis
  proof (cases ss rule: rev_cases)
    case Nil
    then have "last (x @ [c]) = last t" using e assms(3) by simp
    then have "c \<in> set t" using assms(3) by (metis last_in_set last_snoc)
    then show ?thesis using assms(2) by simp
  next
    case (snoc ss' d)
    then have "x @ [c] = (ps @ t @ ss') @ [d]" using e by simp
    then have "x = ps @ t @ ss'" by (simp only: append1_eq_conv)
    then show ?thesis unfolding contains_iff by blast
  qed
qed

lemma split_from_parts:
  "p \<in> set (split_from sep cur s) \<Longrightarrow> \<exists>ps ss. cur @ s = ps @ p @ ss"
proof (induction s arbitrary: cur)
  case Nil
  then have "cur @ [] = [] @ p @ []" by simp
  then show ?case by blast
next
  case (Cons c cs)
  show ?case
  proof (cases "c = sep")
    case True
    then consider "p = cur" | "p \<in> set (split_from sep [] cs)" using Cons.prems by auto
    then show ?thesis
    proof cases
      case 1
      then have "cur @ c # cs = [] @ p @ (c # cs)" by simp
      then show ?thesis by blast
    next
      case 2
      then obtain ps ss where "[] @ cs = ps @ p @ ss" using Cons.IH by blast
      then have "cur @ c # cs = (cur @ c # ps) @ p @ ss" by simp
      then show ?thesis by blast
    qed
  next
    case False
    then have "p \<in> set (split_from sep (cur @ [c]) cs)" using Cons.prems by simp
    then obtain ps ss where "(cur @ [c]) @ cs = ps @ p @ ss" using Cons.IH by blast
    then show ?thesis by auto
  qed
qed

lemma split_from_nonempty: "split_from sep cur s \<noteq> []"
  by (induction s arbitrary: cur) auto

lemma contains_lower_part:
  assumes "p \<in> set (split s sep)" "contains (lower p) t"
  shows "contains (lower s) t"
proof -
  obtain ps ss where "s = ps @ p @ ss"
    using split_from_parts [of p sep "[]" s] assms(1) by (auto simp: split_def)
  then have "lower s = lower ps @ lower p @ lower ss" by (simp add: lower_def)
  then show ?thesis using assms(2) by (simp add: contains_within)
qed

subsection \<open>The token letters come from the lower-cased name\<close>

text \<open>A colour word found in the letters of a parsed token is found in the lower-cased
  frame name as well: the tokens are cut from the name, lower-casing and the removal of
  trailing digits do not create one, and no colour word contains a line feed.\<close>

lemma lower_char_cases:
  "lower_char c = c \<or> (c \<in> set ascii_uppercase \<and> lower_char c \<in> set ascii_lowercase)"
proof (cases "map_of (zip ascii_uppercase ascii_lowercase) c")
  case None
  then show ?thesis by (simp add: lower_char_def)
next
  case (Some d)
  then have "(c, d) \<in> set (zip ascii_uppercase ascii_lowercase)" by (rule map_of_SomeD)
  then have "c \<in> set ascii_uppercase" "d \<in> set ascii_lowercase"
    by (auto dest: set_zip_leftD set_zip_rightD)
  then show ?thesis using Some by (simp add: lower_char_def)
qed

lemma lower_fixed: "c \<notin> set ascii_uppercase \<Longrightarrow> lower_char c = c"
  using lower_char_cases [of c] by auto

lemma letters_disjoint: "c \<in> set ascii_lowercase \<Longrightarrow> c \<notin> set ascii_uppercase"
  using classes_distinct by auto

lemma lower_char_idem: "lower_char (lower_char c) = lower_char c"
  using lower_char_cases [of c] lower_fixed [of "lower_char c"] letters_disjoint by auto

lemma lower_idem: "lower (lower s) = lower s"
  by (simp add: lower_def lower_char_idem)

lemma lower_newline: "lower_char (CHR 0x0A) = CHR 0x0A"
  by (simp add: lower_char_def ascii_uppercase_def ascii_lowercase_def)

lemma lower_take: "lower (take n s) = take n (lower s)"
  by (simp add: lower_def take_map)

lemma lower_drop: "lower (drop n s) = drop n (lower s)"
  by (simp add: lower_def drop_map)

lemma color_token_chars: "\<forall>t\<in>set COLOR_TOKENS. t \<noteq> [] \<and> CHR 0x0A \<notin> set t"
  by (simp add: COLOR_TOKENS_def)

lemma rev_dropWhile_take: "\<exists>k. rev (dropWhile P (rev xs)) = take k xs"
proof -
  have "dropWhile P (rev xs) = drop (length (takeWhile P (rev xs))) (rev xs)"
    by (rule dropWhile_eq_drop)
  then have "rev (dropWhile P (rev xs)) = take (length xs - length (takeWhile P (rev xs))) xs"
    by (simp add: rev_drop)
  then show ?thesis by blast
qed

lemma dollar_body_append:
  assumes "dollar_body p = (body, nl)"
  shows "p = body @ nl \<and> (nl = [] \<or> nl = [CHR 0x0A])"
proof (cases "p \<noteq> [] \<and> last p = CHR 0x0A \<and> butlast p \<noteq> [] \<and> is_digit (last (butlast p))")
  case True
  then have "body = butlast p" "nl = [last p]" "last p = CHR 0x0A"
    using assms by (simp_all add: dollar_body_def)
  moreover have "butlast p @ [last p] = p" using True by (intro append_butlast_last_id) simp
  ultimately show ?thesis by simp
next
  case False
  then have "dollar_body p = (p, [])" unfolding dollar_body_def by (simp only: if_False)
  then show ?thesis using assms by simp
qed

lemma contains_sub_trailing_digits:
  assumes "contains (lower (sub_trailing_digits p)) t" "t \<noteq> []" "CHR 0x0A \<notin> set t"
  shows "contains (lower p) t"
proof -
  obtain body nl where d: "dollar_body p = (body, nl)" by (cases "dollar_body p")
  then have p: "p = body @ nl" and nl: "nl = [] \<or> nl = [CHR 0x0A]"
    using dollar_body_append by blast+
  obtain k where k: "rev (dropWhile is_digit (rev body)) = take k body"
    using rev_dropWhile_take by blast
  have s: "sub_trailing_digits p = take k body @ nl"
    using d k by (simp add: sub_trailing_digits_def)
  have "contains (lower (take k body)) t"
  proof (cases "nl = []")
    case True
    then show ?thesis using assms(1) s by simp
  next
    case False
    then have "lower (sub_trailing_digits p) = lower (take k body) @ [CHR 0x0A]"
      using nl s by (simp add: lower_def lower_newline)
    then have "contains (lower (take k body) @ [CHR 0x0A]) t" using assms(1) by simp
    then show ?thesis using assms(3,2) by (rule contains_snoc)
  qed
  then have "contains (take k (lower body)) t" by (simp only: lower_take)
  then have "contains (lower body) t" by (rule contains_take)
  then have "contains ([] @ lower body @ lower nl) t" by (rule contains_within)
  moreover have "lower p = [] @ lower body @ lower nl" using p by (simp add: lower_def)
  ultimately show ?thesis by (simp only:)
qed

lemma extract_base_remainder:
  "extract_base part = (key, remainder, variant) \<Longrightarrow>
   \<exists>n. remainder = drop n (lower (sub_trailing_digits part))"
proof -
  assume a: "extract_base part = (key, remainder, variant)"
  show ?thesis
  proof (cases "find (\<lambda>candidate. startswith (lower (sub_trailing_digits part)) candidate) candidates")
    case None
    then have "remainder = drop (length (lower (sub_trailing_digits part))) (lower (sub_trailing_digits part))"
      using a by (simp add: extract_base_def Let_def)
    then show ?thesis by blast
  next
    case (Some c)
    then have "remainder = drop (length c) (lower (sub_trailing_digits part))"
      using a by (auto simp: extract_base_def Let_def)
    then show ?thesis by blast
  qed
qed

lemma token_color_None:
  "(\<forall>l\<in>set ls. \<forall>t\<in>set COLOR_TOKENS. \<not> contains l t) \<Longrightarrow> token_color ls = None"
proof (induction ls)
  case Nil
  show ?case by simp
next
  case (Cons l ls)
  then have "find (\<lambda>color_token. contains l color_token) COLOR_TOKENS = None"
    by (simp add: find_None_iff)
  then show ?case using Cons by simp
qed

lemma token_letters_plain:
  assumes "split frame_name CHR ''_'' = base_part # more_parts"
    and "extract_base base_part = (base_key, base_remainder, base_variant)"
    and "\<forall>t\<in>set COLOR_TOKENS. \<not> contains (lower frame_name) t"
  shows "token_color (map fst (map split_token (filter (\<lambda>token. token \<noteq> [])
           ((if base_remainder \<noteq> [] then [base_remainder] else []) @ more_parts)))) = None"
proof (rule token_color_None, intro ballI)
  fix l t
  assume l: "l \<in> set (map fst (map split_token (filter (\<lambda>token. token \<noteq> [])
           ((if base_remainder \<noteq> [] then [base_remainder] else []) @ more_parts))))"
    and t: "t \<in> set COLOR_TOKENS"
  then have tc: "t \<noteq> []" "CHR 0x0A \<notin> set t" using color_token_chars by auto
  from l obtain tok where tok: "tok = base_remainder \<or> tok \<in> set more_parts"
    and lt: "l = lower (sub_trailing_digits tok)"
    by (auto simp: split_token_def split: if_splits)
  show "\<not> contains l t"
  proof
    assume "contains l t"
    then have "contains (lower (sub_trailing_digits tok)) t" using lt by simp
    then have c: "contains (lower tok) t" using tc by (rule contains_sub_trailing_digits)
    have parts: "base_part \<in> set (split frame_name CHR ''_'')"
      "\<And>q. q \<in> set more_parts \<Longrightarrow> q \<in> set (split frame_name CHR ''_'')"
      using assms(1) by simp_all
    have "contains (lower frame_name) t"
    proof (cases "tok \<in> set more_parts")
      case True
      then show ?thesis using parts(2) c contains_lower_part by blast
    next
      case False
      then have "tok = base_remainder" using tok by simp
      then obtain n where "tok = drop n (lower (sub_trailing_digits base_part))"
        using extract_base_remainder [OF assms(2)] by blast
      then have "lower tok = drop n (lower (sub_trailing_digits base_part))"
        by (simp add: lower_drop lower_idem)
      then have "contains (drop n (lower (sub_trailing_digits base_part))) t"
        using c by simp
      then have "contains (lower (sub_trailing_digits base_part)) t"
        by (rule contains_drop)
      then have "contains (lower base_part) t"
        using tc by (rule contains_sub_trailing_digits)
      then show ?thesis using parts(1) contains_lower_part by blast
    qed
    then show False using assms(3) t by blast
  qed
qed

subsection \<open>Every description starts with the colour\<close>

lemma startswith_append: "startswith (c @ r) c"
  by (simp add: startswith_iff)

lemma join_space_Cons: "\<exists>r. join_space (c # ys) = c @ r"
  by (cases ys) auto

lemma join_nonempty_prefix: "c \<noteq> [] \<Longrightarrow> startswith (join_nonempty (c # xs)) c"
  using join_space_Cons [of c "filter (\<lambda>f. f \<noteq> []) xs"]
  by (auto simp: join_nonempty_def startswith_iff)

lemma description_for_prefix:
  "color \<noteq> [] \<Longrightarrow>
   startswith (description_for base_key base_remainder variant_main parsed_tokens color type_label)
     color"
  by (simp add: description_for_def Let_def join_nonempty_prefix startswith_append)

lemma strip_keeps_prefix:
  assumes "c \<noteq> []" "\<not> is_space (hd c)" "\<not> is_space (last c)" "startswith x c"
  shows "startswith (strip x) c"
proof -
  obtain r where x: "x = c @ r" using assms(4) by (auto simp: startswith_iff)
  have l: "dropWhile is_space (c @ r) = c @ r" using assms(1,2) by (cases c) auto
  have rc: "dropWhile is_space (rev c) = rev c"
    using assms(1,3) by (cases "rev c") (auto simp: last_rev hd_rev [symmetric] dest: arg_cong [where f = hd])
  have "dropWhile is_space (rev r @ rev c) = dropWhile is_space (rev r) @ rev c"
    using rc by (simp add: dropWhile_append dropWhile_all)
  then have "strip x = c @ rev (dropWhile is_space (rev r))"
    using x l by (simp add: strip_def)
  then show ?thesis by (simp add: startswith_append)
qed

lemma average_color_transparent:
  assumes "\<forall>pixel\<in>set (img (rect_x fr, rect_y fr, rect_x fr + rect_w fr, rect_y fr + rect_h fr)).
             \<not> (length pixel = 4 \<and> pixel ! 3 > 0)"
  shows "average_color img fr = (0, 0, 0)"
proof -
  have "filter opaque (img (rect_x fr, rect_y fr, rect_x fr + rect_w fr, rect_y fr + rect_h fr)) = []"
    using assms by (simp add: filter_empty_conv opaque_def)
  then show ?thesis by (simp add: average_color_def)
qed

lemma classify_black: "classify_color (0, 0, 0) = Inr ''Black''"
  by (simp add: classify_color_def)

lemma describe_black:
  assumes "average_color img (frame details) = (0, 0, 0)"
    and "rsplit1 filename CHR ''.'' = frame_name # ext"
    and "\<forall>t\<in>set COLOR_TOKENS. \<not> contains (lower frame_name) t"
  shows "\<exists>rest. describe_frame filename details img = Inr (''Black'' @ rest)"
proof -
  obtain base_part more_parts where sp: "split frame_name CHR ''_'' = base_part # more_parts"
    using split_from_nonempty [of "CHR ''_''" "[]" frame_name]
    by (cases "split frame_name CHR ''_''") (auto simp: split_def)
  obtain base_key base_remainder base_variant where
    eb: "extract_base base_part = (base_key, base_remainder, base_variant)"
    by (cases "extract_base base_part")
  define parsed_tokens where
    "parsed_tokens = map split_token (filter (\<lambda>token. token \<noteq> [])
           ((if base_remainder \<noteq> [] then [base_remainder] else []) @ more_parts))"
  define result where
    "result = strip (description_for base_key base_remainder (normalize_variant base_variant)
           parsed_tokens (abbreviate ''Black'')
           (case map_of BASE_TYPE_MAP base_key of
              Some l \<Rightarrow> l
            | None \<Rightarrow> replace base_key ''playership'' ''player ship''))"
  have f: "find (\<lambda>color_token. contains (lower frame_name) color_token) COLOR_TOKENS = None"
    using assms(3) by (simp add: find_None_iff)
  have tk: "token_color (map fst parsed_tokens) = None"
    unfolding parsed_tokens_def using sp eb assms(3) by (rule token_letters_plain)
  have dc: "detect_color (lower frame_name) (map fst parsed_tokens)
           (average_color img (frame details)) = Inr ''Black''"
    using f tk by (simp add: detect_color_sampled assms(1) classify_black)
  have d: "describe_frame filename details img = Inr result"
    using assms(2) sp eb parsed_tokens_def [symmetric] dc result_def [symmetric]
    by (rule describe_frame_steps)
  have ab: "abbreviate ''Black'' = ''Black''" by code_simp
  have "startswith (description_for base_key base_remainder (normalize_variant base_variant)
           parsed_tokens ''Black''
           (case map_of BASE_TYPE_MAP base_key of
              Some l \<Rightarrow> l
            | None \<Rightarrow> replace base_key ''playership'' ''player ship'')) ''Black''"
    by (rule description_for_prefix) simp
  then have "startswith result ''Black''"
    unfolding result_def ab by (intro strip_keeps_prefix) (simp_all add: is_space_def whitespace_chars_def)
  then obtain rest where "result = ''Black'' @ rest" unfolding startswith_iff by blast
  then show ?thesis using d by blast
qed

text \<open>
  C8. When no pixel of the cropped rectangle has an alpha above zero, \<open>average_color\<close>
  returns \<open>(0, 0, 0)\<close>, which \<open>classify_color\<close> names \<open>Black\<close>; and a frame with that
  rectangle whose lower-cased name (the file name without its extension) contains no
  colour word is described, without an exception, by a text that starts with \<open>Black\<close>.
\<close>

theorem transparent_frame_black:
  "(\<forall>pixel\<in>set (img (rect_x fr, rect_y fr, rect_x fr + rect_w fr, rect_y fr + rect_h fr)).
      \<not> (length pixel = 4 \<and> pixel ! 3 > 0)) \<longrightarrow>
     average_color img fr = (0, 0, 0)
     \<and> classify_color (average_color img fr) = Inr ''Black''
     \<and> (frame details = fr \<and> rsplit1 filename CHR ''.'' = frame_name # ext
          \<and> (\<forall>t\<in>set COLOR_TOKENS. \<not> contains (lower frame_name) t) \<longrightarrow>
          (\<exists>rest. describe_frame filename details img = Inr (''Black'' @ rest)))"
proof (intro impI conjI)
  assume a: "\<forall>pixel\<in>set (img (rect_x fr, rect_y fr, rect_x fr + rect_w fr, rect_y fr + rect_h fr)).
      \<not> (length pixel = 4 \<and> pixel ! 3 > 0)"
  then show z: "average_color img fr = (0, 0, 0)" by (rule average_color_transparent)
  then show "classify_color (average_color img fr) = Inr ''Black''" by (simp add: classify_black)
  assume b: "frame details = fr \<and> rsplit1 filename CHR ''.'' = frame_name # ext
          \<and> (\<forall>t\<in>set COLOR_TOKENS. \<not> contains (lower frame_name) t)"
  then have "average_color img (frame details) = (0, 0, 0)" using z by simp
  then show "\<exists>rest. describe_frame filename details img = Inr (''Black'' @ rest)"
    using b describe_black by blast
qed

text \<open>The theorem at an image whose pixels are all transparent and the name \<open>ufo.png\<close>.\<close>

theorem transparent_frame_black_witness:
  "list_all (\<lambda>pixel. \<not> (length pixel = 4 \<and> pixel ! 3 > 0)) (clear_image (0, 0, 0 + 2, 0 + 1))
   \<and> average_color clear_image (frame sample_record) = (0, 0, 0)
   \<and> classify_color (average_color clear_image (frame sample_record)) = Inr ''Black''
   \<and> rsplit1 ''ufo.png'' CHR ''.'' = [''ufo'', ''png'']
   \<and> list_all (\<lambda>t. \<not> contains (lower ''ufo'') t) COLOR_TOKENS
   \<and> (\<exists>rest. describe_frame ''ufo.png'' sample_record clear_image = Inr (''Black'' @ rest))"
proof -
  let ?fr = "frame sample_record"
  have h1: "\<forall>pixel\<in>set (clear_image (rect_x ?fr, rect_y ?fr, rect_x ?fr + rect_w ?fr, rect_y ?fr + rect_h ?fr)).
      \<not> (length pixel = 4 \<and> pixel ! 3 > 0)"
    by (simp add: clear_image_def)
  have h2: "rsplit1 ''ufo.png'' CHR ''.'' = ''ufo'' # [''png'']" by code_simp
  have h3: "\<forall>t\<in>set COLOR_TOKENS. \<not> contains (lower ''ufo'') t" by code_simp
  note inst = transparent_frame_black [where img = clear_image and fr = ?fr
      and details = sample_record and filename = "''ufo.png''" and frame_name = "''ufo''"
      and ext = "[''png'']"]
  have c: "average_color clear_image ?fr = (0, 0, 0)
     \<and> classify_color (average_color clear_image ?fr) = Inr ''Black''
     \<and> (\<exists>rest. describe_frame ''ufo.png'' sample_record clear_image = Inr (''Black'' @ rest))"
    using inst h1 h2 h3 by blast
  have "list_all (\<lambda>pixel. \<not> (length pixel = 4 \<and> pixel ! 3 > 0)) (clear_image (0, 0, 0 + 2, 0 + 1))"
    by (simp add: clear_image_def)
  moreover have "list_all (\<lambda>t. \<not> contains (lower ''ufo'') t) COLOR_TOKENS"
    using h3 by (simp only: list_all_iff)
  ultimately show ?thesis using c h2 by blast
qed

end
